theory Spec2Isabelle
  imports Complex_Main "HOL-Library.Sublist" "HOL-Library.Multiset"
begin

section \<open>Printer parts, rules and rule evaluation (snmplib.py, printerpoller.py)\<close>

text \<open>
  The Python exceptions that the modelled functions can raise. A function that can raise
  returns \<open>error + 'a\<close>, with \<open>Inl\<close> for the exception.
\<close>

datatype error = KeyError | TypeError | ZeroDivisionError | IndexError | EasySNMPConnectionError

subsection \<open>Supply and Tray\<close>

text \<open>
  An attribute of a part object holds \<open>None\<close>, an int or a str.
\<close>

datatype pyval = PNone | PInt int | PStr string

text \<open>
  A \<open>Supply\<close> and a \<open>Tray\<close> carry the attributes of their \<open>STRUCTURE\<close> table. In the
  records below the name is the attribute as the walk left it: a str, an int when the
  device sent an INTEGER, or \<open>None\<close> when the walk of the names was too short to reach the
  part. The other attributes were decoded from INTEGER values (the attribute store itself,
  where every attribute may still be \<open>None\<close>, is modelled for \<open>_parse_data\<close> below).
\<close>

record supply_obj =
  supply_class :: int
  supply_type :: int
  supply_name :: pyval
  supply_unit :: int
  supply_capacity :: int
  supply_level :: int

record tray_obj =
  tray_level :: int
  tray_status :: int
  tray_paper :: int
  tray_name :: pyval

datatype part = Supply supply_obj | Tray tray_obj

definition TYPES :: "(int \<times> string) list" where
  "TYPES = [(1, ''other''), (2, ''unknown''), (3, ''toner''), (4, ''wasteToner''), (5, ''ink''),
     (6, ''inkCartridge''), (7, ''inkRibbon''), (8, ''wasteInk''), (9, ''opc''),
     (10, ''developer''), (11, ''fuserOil''), (12, ''solidWax''), (13, ''ribbonWax''),
     (14, ''wasteWax''), (15, ''fuser''), (16, ''coronaWire''), (17, ''fuserOilWick''),
     (18, ''cleanerUnit''), (19, ''fuserCleaningPad''), (20, ''transferUnit''),
     (21, ''tonerCartridge''), (22, ''fuserOiler''), (23, ''water''), (24, ''wasteWater''),
     (25, ''glueWaterAdditive''), (26, ''wastePaper''), (27, ''bindingSupply''),
     (28, ''bandingSupply''), (29, ''stitchingWire''), (30, ''shrinkWrap''), (31, ''paperWrap''),
     (32, ''staples''), (33, ''inserts''), (34, ''covers'')]"

fun get_name :: "part \<Rightarrow> pyval" where
  "get_name (Supply s) = supply_name s"
| "get_name (Tray t) = tray_name t"

text \<open>\<open>Supply.get_type_str\<close> indexes the dict \<open>TYPES\<close> and raises KeyError on a code that
  is not a key; \<open>Tray.get_type_str\<close> is the constant "tray".\<close>

fun get_type_str :: "part \<Rightarrow> error + string" where
  "get_type_str (Supply s) =
     (case map_of TYPES (supply_type s) of None \<Rightarrow> Inl KeyError | Some t \<Rightarrow> Inr t)"
| "get_type_str (Tray t) = Inr ''tray''"

subsection \<open>Rule\<close>

text \<open>
  A value of the \<open>match\<close> section of a rule: a single string or a list of strings. The
  section itself is a Python dict, modelled as an association list from key to value;
  \<open>[]\<close> is the empty dict. \<open>threshold\<close> is a Python float, modelled as an exact real (the
  rounding of floating-point division and multiplication is outside the model).
\<close>

datatype mval = MStr string | MList "string list"

record rule =
  name :: string
  match :: "(string \<times> mval) list option"
  stop :: bool
  threshold :: "real option"
  status :: "int option"
  severity :: int

text \<open>Python's \<open>a in b\<close> on two strings: \<open>a\<close> occurs in \<open>b\<close> as a contiguous substring.\<close>

fun str_in :: "string \<Rightarrow> string \<Rightarrow> bool" where
  "str_in a [] = (a = [])"
| "str_in a (c # cs) = (prefix a (c # cs) \<or> str_in a cs)"

text \<open>
  \<open>Rule.matches\<close>. The source returns False for a missing or empty (falsy) match section,
  then tests the keys "host", "name" and "type" in this order, returning False at the first
  test that fails. The name test evaluates \<open>self.match["name"] not in o.get_name()\<close>
  whatever the types of the two values: Python's \<open>in\<close> raises TypeError unless both are
  strings, that is when the value of the rule is a list and when the name of the part is
  \<open>None\<close> or an int. The type test calls \<open>o.get_type_str()\<close> before looking at the value.
\<close>

definition host_fails :: "(string \<times> mval) list \<Rightarrow> string \<Rightarrow> bool" where
  "host_fails m h =
     (case map_of m ''host'' of
        None \<Rightarrow> False
      | Some (MStr host) \<Rightarrow> host \<noteq> h
      | Some (MList host) \<Rightarrow> h \<notin> set host)"

definition name_fails :: "(string \<times> mval) list \<Rightarrow> part \<Rightarrow> error + bool" where
  "name_fails m o' =
     (case map_of m ''name'' of
        None \<Rightarrow> Inr False
      | Some (MStr n) \<Rightarrow>
          (case get_name o' of
             PStr s \<Rightarrow> Inr (\<not> str_in n s)
           | PNone \<Rightarrow> Inl TypeError
           | PInt i \<Rightarrow> Inl TypeError)
      | Some (MList ns) \<Rightarrow> Inl TypeError)"

definition type_fails :: "(string \<times> mval) list \<Rightarrow> part \<Rightarrow> error + bool" where
  "type_fails m o' =
     (case map_of m ''type'' of
        None \<Rightarrow> Inr False
      | Some match_typ \<Rightarrow>
          (case get_type_str o' of
             Inl e \<Rightarrow> Inl e
           | Inr typ \<Rightarrow>
               (case match_typ of
                  MStr t \<Rightarrow> Inr (\<not> str_in t typ)
                | MList ts \<Rightarrow> Inr (\<not> list_ex (\<lambda>t. str_in t typ) ts))))"

definition matches :: "rule \<Rightarrow> part \<Rightarrow> string \<Rightarrow> error + bool" where
  "matches r o' h =
     (case match r of
        None \<Rightarrow> Inr False
      | Some m \<Rightarrow>
          if m = [] then Inr False
          else if host_fails m h then Inr False
          else (case name_fails m o' of
                  Inl e \<Rightarrow> Inl e
                | Inr True \<Rightarrow> Inr False
                | Inr False \<Rightarrow>
                    (case type_fails m o' of
                       Inl e \<Rightarrow> Inl e
                     | Inr True \<Rightarrow> Inr False
                     | Inr False \<Rightarrow> Inr True)))"

subsection \<open>check\<close>

text \<open>
  \<open>Supply.check\<close> and \<open>Tray.check\<close>. \<open>not rule.threshold\<close> and \<open>not rule.status\<close> are
  Python truth tests: they hold for \<open>None\<close> and also for the number zero. The division
  by \<open>self._capacity\<close> raises ZeroDivisionError when the capacity is 0.
\<close>

definition check_supply :: "supply_obj \<Rightarrow> rule \<Rightarrow> error + bool" where
  "check_supply s r =
     (if supply_level s = -3 then Inr True
      else if supply_level s = -2 then Inr True
      else (case threshold r of
              None \<Rightarrow> Inr False
            | Some t \<Rightarrow>
                if t = 0 then Inr False
                else if supply_capacity s = 0 then Inl ZeroDivisionError
                else Inr ((real_of_int (supply_level s) / real_of_int (supply_capacity s)) * 100 \<ge> t)))"

definition check_tray :: "tray_obj \<Rightarrow> rule \<Rightarrow> error + bool" where
  "check_tray t r =
     (case status r of
        None \<Rightarrow> Inr False
      | Some b \<Rightarrow> if b = 0 then Inr False else Inr (tray_status t \<le> b))"

fun check :: "part \<Rightarrow> rule \<Rightarrow> error + bool" where
  "check (Supply s) r = check_supply s r"
| "check (Tray t) r = check_tray t r"

subsection \<open>apply_rules\<close>

text \<open>
  The loop of \<open>apply_rules\<close> with its running \<open>status\<close> as an argument. The source names
  the result of \<open>item.check(r)\<close> \<open>ok\<close> and raises the status when it is false.
\<close>

fun apply_rules_loop :: "part \<Rightarrow> string \<Rightarrow> int \<Rightarrow> rule list \<Rightarrow> error + int" where
  "apply_rules_loop item h st [] = Inr st"
| "apply_rules_loop item h st (r # rs) =
     (case matches r item h of
        Inl e \<Rightarrow> Inl e
      | Inr False \<Rightarrow> apply_rules_loop item h st rs
      | Inr True \<Rightarrow>
          (case check item r of
             Inl e \<Rightarrow> Inl e
           | Inr ok \<Rightarrow>
               (let st' = (if \<not> ok \<and> severity r > st then severity r else st)
                in if stop r then Inr st' else apply_rules_loop item h st' rs)))"

definition apply_rules :: "part \<Rightarrow> string \<Rightarrow> rule list \<Rightarrow> error + int" where
  "apply_rules item h rule_list = apply_rules_loop item h 0 rule_list"

text \<open>
  The rules that the loop reaches: every rule up to and including the first one that
  matches and has \<open>stop\<close> set. Among them, \<open>failed_rules\<close> are the rules that match and
  whose check returns False.
\<close>

fun reached :: "part \<Rightarrow> string \<Rightarrow> rule list \<Rightarrow> rule list" where
  "reached item h [] = []"
| "reached item h (r # rs) =
     (if matches r item h = Inr True \<and> stop r then [r] else r # reached item h rs)"

definition failed_rules :: "part \<Rightarrow> string \<Rightarrow> rule list \<Rightarrow> rule list" where
  "failed_rules item h rs =
     filter (\<lambda>r. matches r item h = Inr True \<and> check item r = Inr False) (reached item h rs)"

text \<open>A rule runs without an exception on a part: neither \<open>matches\<close> nor, when the rule
  matches, \<open>check\<close> raises.\<close>

definition runs :: "part \<Rightarrow> string \<Rightarrow> rule \<Rightarrow> bool" where
  "runs item h r =
     (\<not> isl (matches r item h) \<and> (matches r item h = Inr True \<longrightarrow> \<not> isl (check item r)))"

subsection \<open>The specification's reading of rule evaluation and matching\<close>

text \<open>
  The specification calls the result of \<open>check\<close> "violates" and lets a rule count when
  the part violates it. \<open>spec_evaluate_loop\<close> follows these words; it differs from
  \<open>apply_rules_loop\<close> in the sign of the test only.
\<close>

fun spec_evaluate_loop :: "part \<Rightarrow> string \<Rightarrow> int \<Rightarrow> rule list \<Rightarrow> error + int" where
  "spec_evaluate_loop item h st [] = Inr st"
| "spec_evaluate_loop item h st (r # rs) =
     (case matches r item h of
        Inl e \<Rightarrow> Inl e
      | Inr False \<Rightarrow> spec_evaluate_loop item h st rs
      | Inr True \<Rightarrow>
          (case check item r of
             Inl e \<Rightarrow> Inl e
           | Inr violates \<Rightarrow>
               (let st' = (if violates \<and> severity r > st then severity r else st)
                in if stop r then Inr st' else spec_evaluate_loop item h st' rs)))"

definition spec_evaluate :: "part \<Rightarrow> string \<Rightarrow> rule list \<Rightarrow> error + int" where
  "spec_evaluate item h rule_list = spec_evaluate_loop item h 0 rule_list"

text \<open>
  The specification's matching. A rule without a match section, or with an empty one, has
  no match predicate. A sub-predicate that is absent holds; one given as a single
  value holds when the value satisfies the condition; one given as a list holds when some
  element does. The conditions are equality with the host, and containment in the part's
  name and in its type string.
\<close>

fun spec_sub :: "(string \<Rightarrow> bool) \<Rightarrow> mval option \<Rightarrow> bool" where
  "spec_sub sat None = True"
| "spec_sub sat (Some (MStr v)) = sat v"
| "spec_sub sat (Some (MList vs)) = list_ex sat vs"

definition spec_matches :: "rule \<Rightarrow> part \<Rightarrow> string \<Rightarrow> bool" where
  "spec_matches r o' h =
     (case match r of
        None \<Rightarrow> False
      | Some m \<Rightarrow>
          m \<noteq> [] \<and>
          spec_sub (\<lambda>v. v = h) (map_of m ''host'') \<and>
          spec_sub (\<lambda>v. case get_name o' of PStr s \<Rightarrow> sublist v s | PNone \<Rightarrow> False | PInt i \<Rightarrow> False)
            (map_of m ''name'') \<and>
          spec_sub (\<lambda>v. case get_type_str o' of Inl e \<Rightarrow> False | Inr typ \<Rightarrow> sublist v typ)
            (map_of m ''type''))"

section \<open>Device information and the error summary\<close>

subsection \<open>PrinterInfo._get_max_severity_level\<close>

text \<open>
  The argument is the list of alarm codes of the walk, each already read by
  \<open>int(item.value)\<close>. Every code is capped at 4 before it is compared with the running
  maximum, which starts at 0.
\<close>

definition get_max_severity_level :: "int list \<Rightarrow> int" where
  "get_max_severity_level walk =
     (let m = foldl (\<lambda>m item. let val = min item 4 in if val > m then val else m) 0 walk
      in if m = 4 then 1 else if m = 3 then 2 else 0)"

text \<open>The specification's mapping of one alarm code, applied to the greatest code.\<close>

definition spec_code_severity :: "int \<Rightarrow> int" where
  "spec_code_severity c = (if c = 4 then 1 else if c = 3 then 2 else 0)"

definition spec_max_severity :: "int list \<Rightarrow> int" where
  "spec_max_severity walk = (if walk = [] then 0 else spec_code_severity (Max (set walk)))"

subsection \<open>The error summary of check_printer\<close>

text \<open>Python's \<open>%d\<close> of a natural number: its decimal digits.\<close>

fun str_nat :: "nat \<Rightarrow> string" where
  "str_nat n =
     (if n < 10 then [''0123456789'' ! n] else str_nat (n div 10) @ [''0123456789'' ! (n mod 10)])"

text \<open>
  \<open>err_parts\<close> holds the pairs (name, status) of the parts with a status above 0, in the
  order of the walk. The summary sorts them with Python's stable \<open>sorted\<close> on the status
  and reverses the result.
\<close>

definition sort_err_parts :: "(string \<times> int) list \<Rightarrow> (string \<times> int) list" where
  "sort_err_parts err_parts = rev (sort_key snd err_parts)"

definition str_err_parts :: "(string \<times> int) list \<Rightarrow> string" where
  "str_err_parts err_parts =
     (let sorted_parts = sort_err_parts err_parts; num_errors = length sorted_parts
      in if num_errors = 0 then ''''
         else if num_errors = 1 then ''Alert for '' @ fst (sorted_parts ! 0)
         else ''Alert for '' @ fst (sorted_parts ! 0) @ '' and '' @ str_nat (num_errors - 1)
                @ '' more failures(s)'')"

section \<open>Polling the hosts (check_printers)\<close>

text \<open>
  The values of an info dict are numbers and strings. The \<open>data\<close> dict of a stored
  document has the keys "info", "supplies" and "trays"; a key that is absent is \<open>None\<close>.
  The records of the parts are of no interest here and stay a type parameter.
\<close>

datatype jv = JInt int | JStr string

record 'p data =
  info :: "(string \<rightharpoonup> jv) option"
  supplies :: "'p list option"
  trays :: "'p list option"

definition HEADER_CRITICAL :: string where
  "HEADER_CRITICAL = ''#DC143C''"

definition offline_info :: "string \<Rightarrow> (string \<rightharpoonup> jv)" where
  "offline_info dev =
     [''max_status'' \<mapsto> JInt 2, ''name'' \<mapsto> JStr dev, ''alerts'' \<mapsto> JStr ''Printer offline'',
      ''rgb'' \<mapsto> JStr HEADER_CRITICAL]"

text \<open>
  The \<open>finally\<close> clause: \<open>dataset["data"]["info"]["checked"] = ...\<close> raises KeyError when the
  data dict has no "info"; otherwise the timestamp is stored and the document is saved
  under the key of the device.
\<close>

definition finally_clause ::
  "string \<Rightarrow> string \<Rightarrow> 'p data \<Rightarrow> (string \<rightharpoonup> 'p data) \<Rightarrow> error + (string \<rightharpoonup> 'p data)" where
  "finally_clause dev ts d database =
     (case info d of
        None \<Rightarrow> Inl KeyError
      | Some i \<Rightarrow> Inr (database(dev \<mapsto> d\<lparr>info := Some (i(''checked'' \<mapsto> JStr ts))\<rparr>)))"

text \<open>
  The document that an iteration works on: a fresh one with an empty data dict when the
  device is not in the database, the stored one otherwise.
\<close>

definition get_dataset :: "(string \<rightharpoonup> 'p data) \<Rightarrow> string \<Rightarrow> 'p data" where
  "get_dataset database dev =
     (case database dev of
        None \<Rightarrow> \<lparr>info = None, supplies = None, trays = None\<rparr>
      | Some d \<Rightarrow> d)"

text \<open>
  The loop of \<open>check_printers\<close> over the devices. \<open>check_printer\<close> talks to the device; its
  outcome at the i-th iteration is the parameter \<open>cp i dev\<close>: the data dict, or the
  exception raised. \<open>now i\<close> is the formatted time read in the i-th \<open>finally\<close> clause. The
  database maps a device to the data of its document. The result is the database and the
  exception that ended the loop, if any: only EasySNMPConnectionError is caught.
\<close>

fun check_printers_loop ::
  "(nat \<Rightarrow> string \<Rightarrow> error + 'p data) \<Rightarrow> (nat \<Rightarrow> string) \<Rightarrow> nat \<Rightarrow> (string \<rightharpoonup> 'p data)
     \<Rightarrow> string list \<Rightarrow> (string \<rightharpoonup> 'p data) \<times> error option" where
  "check_printers_loop cp now i database [] = (database, None)"
| "check_printers_loop cp now i database (dev # h) =
     (let dataset = get_dataset database dev
      in case cp i dev of
           Inr d \<Rightarrow>
             (case finally_clause dev (now i) d database of
                Inl e \<Rightarrow> (database, Some e)
              | Inr database' \<Rightarrow> check_printers_loop cp now (Suc i) database' h)
         | Inl e \<Rightarrow>
             if e = EasySNMPConnectionError then
               (case finally_clause dev (now i) (dataset\<lparr>info := Some (offline_info dev)\<rparr>) database of
                  Inl e' \<Rightarrow> (database, Some e')
                | Inr database' \<Rightarrow> check_printers_loop cp now (Suc i) database' h)
             else
               (case finally_clause dev (now i) dataset database of
                  Inl e' \<Rightarrow> (database, Some e')
                | Inr database' \<Rightarrow> (database', Some e)))"

definition check_printers ::
  "(nat \<Rightarrow> string \<Rightarrow> error + 'p data) \<Rightarrow> (nat \<Rightarrow> string) \<Rightarrow> (string \<rightharpoonup> 'p data)
     \<Rightarrow> string list \<Rightarrow> (string \<rightharpoonup> 'p data) \<times> error option" where
  "check_printers cp now database h = check_printers_loop cp now 0 database h"

section \<open>Assembling the parts from the walks (_parse_data)\<close>

text \<open>
  An entry of a walk carries the SNMP type and the value; an entry of type INTEGER carries
  the decimal text of a number, which \<open>int(entry.value)\<close> reads, so the model carries the
  number itself.
\<close>

datatype entry = IntegerEntry int | TextEntry string

text \<open>The characters below 256 that Python's \<open>str.strip()\<close> removes.\<close>

definition py_isspace :: "char \<Rightarrow> bool" where
  "py_isspace c =
     (let n = (of_char c :: nat) in (9 \<le> n \<and> n \<le> 13) \<or> (28 \<le> n \<and> n \<le> 32) \<or> n = 133 \<or> n = 160)"

definition strip :: "string \<Rightarrow> string" where
  "strip s = rev (dropWhile py_isspace (rev (dropWhile py_isspace s)))"

definition decode :: "entry \<Rightarrow> pyval" where
  "decode e =
     (case e of
        IntegerEntry i \<Rightarrow> PInt i
      | TextEntry s \<Rightarrow> PStr (filter (\<lambda>c. c \<noteq> CHR 0x00) (strip s)))"

text \<open>
  A part object is its attribute dict. \<open>STRUCTURE\<close> is the table of a class, in the order
  of the source; \<open>new_part\<close> is the constructor, which sets every attribute of the table to
  \<open>None\<close> (and \<open>type\<close> to "tray" in a Tray).
\<close>

type_synonym entity = "string \<rightharpoonup> pyval"

datatype part_class = SupplyClass | TrayClass

fun STRUCTURE :: "part_class \<Rightarrow> (string \<times> string) list" where
  "STRUCTURE SupplyClass =
     [(''1.3.6.1.2.1.43.11.1.1.4'', ''class''), (''1.3.6.1.2.1.43.11.1.1.5'', ''type''),
      (''1.3.6.1.2.1.43.11.1.1.6'', ''name''), (''1.3.6.1.2.1.43.11.1.1.7'', ''unit''),
      (''1.3.6.1.2.1.43.11.1.1.8'', ''capacity''), (''1.3.6.1.2.1.43.11.1.1.9'', ''level'')]"
| "STRUCTURE TrayClass =
     [(''1.3.6.1.2.1.43.8.2.1.10'', ''level''), (''1.3.6.1.2.1.43.8.2.1.11'', ''status''),
      (''1.3.6.1.2.1.43.8.2.1.12'', ''paper''), (''1.3.6.1.2.1.43.8.2.1.18'', ''name'')]"

definition walkable_init :: "part_class \<Rightarrow> entity" where
  "walkable_init typ = fold (\<lambda>attr self. self(''_'' @ attr \<mapsto> PNone)) (map snd (STRUCTURE typ)) Map.empty"

fun new_part :: "part_class \<Rightarrow> entity" where
  "new_part SupplyClass = walkable_init SupplyClass"
| "new_part TrayClass = (walkable_init TrayClass)(''type'' \<mapsto> PStr ''tray'')"

definition add_data :: "part_class \<Rightarrow> string \<Rightarrow> entry \<Rightarrow> entity \<Rightarrow> error + entity" where
  "add_data typ key e self =
     (case map_of (STRUCTURE typ) key of
        None \<Rightarrow> Inl KeyError
      | Some attr \<Rightarrow> Inr (self(''_'' @ attr \<mapsto> decode e)))"

text \<open>
  The inner loop of \<open>_parse_data\<close> over the enumerated walk of one key: \<open>idx\<close> is the index
  of the next entry. When \<open>idx > len(items) - 1\<close> a new part is appended and receives the
  value; otherwise the part at \<open>idx\<close> receives it (then \<open>idx\<close> is within the list).
\<close>

fun walk_loop :: "part_class \<Rightarrow> string \<Rightarrow> entity list \<Rightarrow> nat \<Rightarrow> entry list \<Rightarrow> error + entity list" where
  "walk_loop typ key items idx [] = Inr items"
| "walk_loop typ key items idx (e # es) =
     (let items' = (if int idx > int (length items) - 1 then items @ [new_part typ] else items);
          pos = (if int idx > int (length items) - 1 then length items else idx)
      in case add_data typ key e (items' ! pos) of
           Inl err \<Rightarrow> Inl err
         | Inr item \<Rightarrow> walk_loop typ key (items'[pos := item]) (Suc idx) es)"

fun parse_keys ::
  "part_class \<Rightarrow> (string \<Rightarrow> entry list) \<Rightarrow> entity list \<Rightarrow> string list \<Rightarrow> error + entity list" where
  "parse_keys typ walk items [] = Inr items"
| "parse_keys typ walk items (key # keys) =
     (case walk_loop typ key items 0 (walk key) of
        Inl err \<Rightarrow> Inl err
      | Inr items' \<Rightarrow> parse_keys typ walk items' keys)"

definition parse_data :: "part_class \<Rightarrow> (string \<Rightarrow> entry list) \<Rightarrow> error + entity list" where
  "parse_data typ walk = parse_keys typ walk [] (map fst (STRUCTURE typ))"

text \<open>The attribute that \<open>add_data\<close> sets for a key of the table.\<close>

definition attr_name :: "part_class \<Rightarrow> string \<Rightarrow> string" where
  "attr_name typ key = ''_'' @ the (map_of (STRUCTURE typ) key)"

section \<open>Example values\<close>

definition black_toner :: supply_obj where
  "black_toner = \<lparr>supply_class = 3, supply_type = 21, supply_name = PStr ''Black Toner'',
     supply_unit = 19, supply_capacity = 200, supply_level = 150\<rparr>"

definition tray_one :: tray_obj where
  "tray_one = \<lparr>tray_level = 250, tray_status = 4, tray_paper = 2, tray_name = PStr ''Tray 1''\<rparr>"

text \<open>A rule as \<open>Rule.__init__\<close> builds it from a dict that has only the name and the match
  section: no stop, no threshold, no status bound, severity 2.\<close>

definition plain_rule :: "(string \<times> mval) list \<Rightarrow> rule" where
  "plain_rule m = \<lparr>name = ''rule'', match = Some m, stop = False, threshold = None,
     status = None, severity = 2\<rparr>"

definition toner_rule :: rule where
  "toner_rule = plain_rule [(''type'', MList [''toner'', ''ink''])]"

definition tray_rule :: rule where
  "tray_rule = plain_rule [(''type'', MStr ''tray'')]"

definition stored_printer :: "string data" where
  "stored_printer = \<lparr>info = Some [''name'' \<mapsto> JStr ''printer1''],
     supplies = Some [''Black Toner''], trays = Some [''Tray 1'']\<rparr>"

text \<open>A transport on which the first device is unreachable and every other device answers
  with an info dict and no parts.\<close>

definition first_offline :: "nat \<Rightarrow> string \<Rightarrow> error + string data" where
  "first_offline i dev =
     (if i = 0 then Inl EasySNMPConnectionError
      else Inr \<lparr>info = Some [''name'' \<mapsto> JStr dev], supplies = Some [], trays = Some []\<rparr>)"

text \<open>A transport on which the second device is unreachable and every other device
  answers.\<close>

definition second_offline :: "nat \<Rightarrow> string \<Rightarrow> error + string data" where
  "second_offline i dev =
     (if i = 1 then Inl EasySNMPConnectionError
      else Inr \<lparr>info = Some [''name'' \<mapsto> JStr dev], supplies = Some [], trays = Some []\<rparr>)"

definition clock :: "nat \<Rightarrow> string" where
  "clock i = ''01.02.2020 10:00:0'' @ str_nat i"

text \<open>A device that reports two tray levels, one tray name and nothing else.\<close>

definition short_walk :: "string \<Rightarrow> entry list" where
  "short_walk key =
     (if key = ''1.3.6.1.2.1.43.8.2.1.10'' then [IntegerEntry 250, IntegerEntry 30]
      else if key = ''1.3.6.1.2.1.43.8.2.1.18'' then [TextEntry '' Tray 1 '']
      else [])"

section \<open>Properties of check\<close>

text \<open>
  C4. A supply whose level is -3, and likewise one whose level is -2, makes
  \<open>Supply.check\<close> return True for every rule, whatever the threshold of the rule.
\<close>

theorem check_supply_sentinel:
  "supply_level s = -3 \<or> supply_level s = -2 \<Longrightarrow> check_supply s r = Inr True"
  by (auto simp: check_supply_def)

theorem check_supply_sentinel_witness:
  "(supply_level (black_toner\<lparr>supply_level := -3\<rparr>) = -3 \<or>
    supply_level (black_toner\<lparr>supply_level := -3\<rparr>) = -2) \<and>
   check_supply (black_toner\<lparr>supply_level := -3\<rparr>) (toner_rule\<lparr>threshold := Some 70\<rparr>) = Inr True \<and>
   (supply_level (black_toner\<lparr>supply_level := -2\<rparr>) = -3 \<or>
    supply_level (black_toner\<lparr>supply_level := -2\<rparr>) = -2) \<and>
   check_supply (black_toner\<lparr>supply_level := -2\<rparr>) toner_rule = Inr True"
  using check_supply_sentinel [of "black_toner\<lparr>supply_level := -3\<rparr>" "toner_rule\<lparr>threshold := Some 70\<rparr>"]
    check_supply_sentinel [of "black_toner\<lparr>supply_level := -2\<rparr>" toner_rule]
  by (simp add: black_toner_def)

text \<open>
  With a threshold other than zero and a capacity other than zero, a supply whose level is
  not -3 or -2 passes the check exactly when its percentage reaches the threshold. A
  capacity of zero raises ZeroDivisionError. The percentage is exact here; the source
  computes it in doubles, whose rounding can leave a percentage just below a threshold
  that it equals exactly.
\<close>

lemma check_supply_threshold:
  assumes "supply_level s \<noteq> -3" and "supply_level s \<noteq> -2"
    and "threshold r = Some t" and "t \<noteq> 0" and "supply_capacity s \<noteq> 0"
  shows "check_supply s r =
     Inr (real_of_int (supply_level s) / real_of_int (supply_capacity s) * 100 \<ge> t)"
  using assms by (simp add: check_supply_def)

lemma check_supply_threshold_examples:
  "check_supply black_toner (toner_rule\<lparr>threshold := Some 70\<rparr>) = Inr True"
  "check_supply black_toner (toner_rule\<lparr>threshold := Some 80\<rparr>) = Inr False"
  by (simp_all add: check_supply_def black_toner_def toner_rule_def plain_rule_def)

lemma check_supply_zero_capacity:
  "check_supply (black_toner\<lparr>supply_capacity := 0\<rparr>) (toner_rule\<lparr>threshold := Some 70\<rparr>)
     = Inl ZeroDivisionError"
  by (simp add: check_supply_def black_toner_def toner_rule_def plain_rule_def)

text \<open>
  C5. The claim: a supply with a level of at least 0 and a rule that carries a threshold
  give \<open>check\<close> = True exactly when (level / capacity) * 100 reaches the threshold. The
  source tests the presence of the threshold with \<open>not rule.threshold\<close>, which also holds
  for the threshold 0.0: for capacity 200, level 150 and threshold 0 the percentage 75
  reaches the threshold, and \<open>check\<close> returns False.
\<close>

theorem check_supply_zero_threshold:
  "supply_level black_toner \<ge> 0 \<and>
   threshold (toner_rule\<lparr>threshold := Some 0\<rparr>) = Some 0 \<and>
   real_of_int (supply_level black_toner) / real_of_int (supply_capacity black_toner) * 100 \<ge> 0 \<and>
   check_supply black_toner (toner_rule\<lparr>threshold := Some 0\<rparr>) = Inr False"
  by (simp add: check_supply_def black_toner_def toner_rule_def plain_rule_def)

text \<open>
  With a status bound other than zero, a tray passes the check exactly when its status
  code is at most the bound; without a bound the check returns False.
\<close>

lemma check_tray_bound:
  "status r = None \<Longrightarrow> check_tray t r = Inr False"
  "status r = Some b \<Longrightarrow> b \<noteq> 0 \<Longrightarrow> check_tray t r = Inr (tray_status t \<le> b)"
  by (simp_all add: check_tray_def)

lemma check_tray_examples:
  "check_tray tray_one (tray_rule\<lparr>status := Some 5\<rparr>) = Inr True"
  "check_tray tray_one (tray_rule\<lparr>status := Some 3\<rparr>) = Inr False"
  by (simp_all add: check_tray_def tray_one_def tray_rule_def plain_rule_def)

text \<open>
  C6. The claim: a rule without a status bound is never violated, and a rule with a bound
  gives \<open>check\<close> = True exactly when the status code of the tray is at most the bound. The
  source tests the presence of the bound with \<open>not rule.status\<close>, which also holds for the
  bound 0: a tray with status 0 and a rule with the bound 0 satisfy 0 \<le> 0, and \<open>check\<close>
  returns False.
\<close>

theorem check_tray_zero_bound:
  "status (tray_rule\<lparr>status := Some 0\<rparr>) = Some 0 \<and>
   tray_status (tray_one\<lparr>tray_status := 0\<rparr>) \<le> 0 \<and>
   check_tray (tray_one\<lparr>tray_status := 0\<rparr>) (tray_rule\<lparr>status := Some 0\<rparr>) = Inr False"
  by (simp add: check_tray_def tray_one_def tray_rule_def plain_rule_def)

section \<open>Properties of rule matching and rule evaluation\<close>

lemmas rule_eval = matches_def host_fails_def name_fails_def type_fails_def check_tray_def
  check_supply_def tray_rule_def toner_rule_def plain_rule_def tray_one_def black_toner_def
  runs_def failed_rules_def apply_rules_def spec_evaluate_def TYPES_def Let_def

text \<open>\<open>str_in\<close> is containment as a contiguous sublist.\<close>

lemma str_in_sublist: "str_in a b = sublist a b"
  by (induction b) (simp_all add: sublist_Cons_right)

text \<open>
  When the "name" sub-predicate is a single string, the part has a name string and, if a
  "type" sub-predicate is present, a type string, \<open>matches\<close> is what the specification
  says: false without a match predicate, and otherwise true exactly when every
  sub-predicate present holds.
\<close>

lemma matches_agrees:
  "(match r = None \<or> match r = Some [] \<longrightarrow> matches r o' h = Inr False) \<and>
   (\<forall>m. match r = Some m \<and> (\<forall>ns. map_of m ''name'' \<noteq> Some (MList ns)) \<and>
        (map_of m ''name'' \<noteq> None \<longrightarrow> (\<exists>s. get_name o' = PStr s)) \<and>
        (map_of m ''type'' \<noteq> None \<longrightarrow> \<not> isl (get_type_str o'))
      \<longrightarrow> matches r o' h = Inr (spec_matches r o' h))"
  by (auto simp: matches_def spec_matches_def host_fails_def name_fails_def type_fails_def
      str_in_sublist list_ex_iff split: option.splits mval.splits sum.splits bool.splits
      pyval.splits)

lemma matches_examples:
  "matches toner_rule (Supply black_toner) ''h'' = Inr True"
  "matches toner_rule (Supply (black_toner\<lparr>supply_type := 32\<rparr>)) ''h'' = Inr False"
  "matches (plain_rule [(''host'', MList [''a'', ''h''])]) (Supply black_toner) ''h'' = Inr True"
  "matches (plain_rule [(''name'', MStr ''Toner'')]) (Supply black_toner) ''h'' = Inr True"
  "matches (plain_rule [(''name'', MStr ''toner'')]) (Supply black_toner) ''h'' = Inr False"
  by (simp_all add: rule_eval)

text \<open>
  A part whose name is still \<open>None\<close> raises TypeError in the name test, and a supply whose
  type code is not a key of \<open>TYPES\<close> raises KeyError in the type test.
\<close>

lemma matches_raises:
  "matches (plain_rule [(''name'', MStr ''Tray'')]) (Tray (tray_one\<lparr>tray_name := PNone\<rparr>)) ''h''
     = Inl TypeError"
  "matches toner_rule (Supply (black_toner\<lparr>supply_type := 99\<rparr>)) ''h'' = Inl KeyError"
  by (simp_all add: rule_eval)

text \<open>
  C2. The claim: \<open>matches\<close> is false for a rule without a match predicate and otherwise
  true exactly when every sub-predicate that is present (host, name, type) holds, where a
  sub-predicate given as a list holds when some element satisfies it. The source accepts a
  list for "host" and for "type", and misses the case for "name": for a supply named
  "Black Toner" and a rule with the names ["Black", "Cyan"] the claim lets the rule match,
  and \<open>matches\<close> raises TypeError.
\<close>

theorem matches_name_list_raises:
  "get_name (Supply black_toner) = PStr ''Black Toner'' \<and>
   spec_matches (plain_rule [(''name'', MList [''Black'', ''Cyan''])]) (Supply black_toner) ''h'' \<and>
   matches (plain_rule [(''name'', MList [''Black'', ''Cyan''])]) (Supply black_toner) ''h''
     = Inl TypeError"
  by (simp add: rule_eval spec_matches_def str_in_sublist [symmetric])

text \<open>The loop of \<open>apply_rules\<close>: its result, where it stops, and what it is bounded by.\<close>

lemma loop_max:
  assumes "\<forall>r \<in> set (reached item h rs). runs item h r"
  shows "apply_rules_loop item h st rs = Inr (Max (insert st (severity ` set (failed_rules item h rs))))"
  using assms
proof (induction rs arbitrary: st)
  case Nil
  then show ?case by (simp add: failed_rules_def)
next
  case (Cons r rs)
  have run: "runs item h r" using Cons.prems by (simp split: if_splits)
  show ?case
  proof (cases "matches r item h = Inr True")
    case False
    with run have m: "matches r item h = Inr False"
      by (cases "matches r item h") (auto simp: runs_def)
    from Cons.prems m have "\<forall>r \<in> set (reached item h rs). runs item h r" by simp
    from Cons.IH [OF this] m show ?thesis by (simp add: failed_rules_def)
  next
    case True
    with run obtain ok where ok: "check item r = Inr ok"
      by (cases "check item r") (auto simp: runs_def)
    let ?st' = "if \<not> ok \<and> severity r > st then severity r else st"
    show ?thesis
    proof (cases "stop r")
      case s: True
      with True ok show ?thesis
        by (cases ok) (auto simp: failed_rules_def max_def)
    next
      case s: False
      with Cons.prems True have "\<forall>r \<in> set (reached item h rs). runs item h r" by simp
      from Cons.IH [OF this, of ?st']
      have ih: "apply_rules_loop item h ?st' rs = Inr (Max (insert ?st' (severity ` set (failed_rules item h rs))))" .
      let ?S = "severity ` set (failed_rules item h rs)"
      have fin: "finite ?S" by simp
      have "Max (insert ?st' ?S) = Max (insert st (severity ` set (failed_rules item h (r # rs))))"
      proof (cases ok)
        case t: True
        with True ok s show ?thesis by (simp add: failed_rules_def)
      next
        case f: False
        have "Max (insert (max st (severity r)) ?S) = Max (insert st (insert (severity r) ?S))"
        proof (cases "?S = {}")
          case True then show ?thesis by simp
        next
          case False with fin show ?thesis by (simp add: max.assoc)
        qed
        moreover have "?st' = max st (severity r)" using f by (simp add: max_def)
        ultimately show ?thesis using True ok s f by (simp add: failed_rules_def)
      qed
      with ih True ok s show ?thesis by (simp add: Let_def)
    qed
  qed
qed

lemma loop_stop:
  assumes "matches r item h = Inr True" and "stop r"
  shows "apply_rules_loop item h st (pre @ r # post) = apply_rules_loop item h st (pre @ [r])"
  using assms
  by (induction pre arbitrary: st) (auto split: sum.splits bool.splits simp: Let_def)

lemma reached_stop:
  assumes "matches r item h = Inr True" and "stop r"
  shows "reached item h (pre @ r # post) = reached item h (pre @ [r])"
  using assms by (induction pre) auto

lemma reached_prefix: "prefix (reached item h rs) rs"
  by (induction rs) auto

lemma loop_ge: "apply_rules_loop item h st rs = Inr v \<Longrightarrow> st \<le> v"
proof (induction rs arbitrary: st)
  case Nil then show ?case by simp
next
  case (Cons r rs)
  then show ?case
    by (fastforce split: sum.splits bool.splits if_splits simp: Let_def)
qed

lemma loop_reached_ge:
  assumes "r \<in> set (reached item h rs)" and "matches r item h = Inr True"
    and "check item r = Inr False" and "apply_rules_loop item h st rs = Inr v"
  shows "severity r \<le> v"
  using assms
proof (induction rs arbitrary: st)
  case Nil then show ?case by simp
next
  case (Cons x rs)
  show ?case
  proof (cases "x = r")
    case True
    with Cons.prems show ?thesis
      by (auto split: if_splits simp: Let_def dest: loop_ge)
  next
    case False
    with Cons.prems Cons.IH show ?thesis
      by (auto split: sum.splits bool.splits if_splits simp: Let_def)
  qed
qed

text \<open>When a rule that the loop reaches raises, so does the loop.\<close>

lemma loop_raises:
  assumes "\<not> (\<forall>r \<in> set (reached item h rs). runs item h r)"
  shows "isl (apply_rules_loop item h st rs)"
  using assms
proof (induction rs arbitrary: st)
  case Nil
  then show ?case by simp
next
  case (Cons r rs)
  show ?case
  proof (cases "runs item h r")
    case False
    then show ?thesis
      by (auto simp: runs_def split: sum.splits bool.splits)
  next
    case True
    with Cons.prems have rest: "\<not> (\<forall>r \<in> set (reached item h rs). runs item h r)"
      and cont: "\<not> (matches r item h = Inr True \<and> stop r)"
      by (auto split: if_splits)
    from Cons.IH [OF rest] cont True show ?thesis
      by (auto simp: runs_def Let_def split: sum.splits bool.splits)
  qed
qed

text \<open>
  C1, as stated: \<open>apply_rules\<close> returns the greatest severity among the rules that match
  the part and are violated by it, where "violated" is the result of \<open>check\<close>. The source
  does the opposite with the result of \<open>check\<close>: it names it \<open>ok\<close> and counts the rule when
  it is false. A tray with status 4 and one matching rule with the bound 5 and severity 2
  has \<open>check\<close> = True and the status 0, not 2. In the example of the specification, a
  matching rule with stop whose \<open>check\<close> is False, followed by a rule whose \<open>check\<close> is True,
  the result is the severity of the first rule, not 0.
\<close>

theorem apply_rules_counts_false_checks:
  "matches (tray_rule\<lparr>status := Some 5\<rparr>) (Tray tray_one) ''h'' = Inr True \<and>
   check (Tray tray_one) (tray_rule\<lparr>status := Some 5\<rparr>) = Inr True \<and>
   apply_rules (Tray tray_one) ''h'' [tray_rule\<lparr>status := Some 5\<rparr>] = Inr 0 \<and>
   spec_evaluate (Tray tray_one) ''h'' [tray_rule\<lparr>status := Some 5\<rparr>] = Inr 2 \<and>
   check (Tray tray_one) (tray_rule\<lparr>status := Some 3, stop := True\<rparr>) = Inr False \<and>
   apply_rules (Tray tray_one) ''h''
     [tray_rule\<lparr>status := Some 3, stop := True\<rparr>, tray_rule\<lparr>status := Some 5\<rparr>] = Inr 2 \<and>
   spec_evaluate (Tray tray_one) ''h''
     [tray_rule\<lparr>status := Some 3, stop := True\<rparr>, tray_rule\<lparr>status := Some 5\<rparr>] = Inr 0"
  by (simp add: rule_eval)

text \<open>
  C1, amended: \<open>apply_rules\<close> goes through the rules in declaration order and, when no
  rule that it reaches raises, returns the greatest severity among the reached rules that
  match the part and whose \<open>check\<close> returns False, and 0 if there is none (the result is
  never below 0). A matching rule with stop ends the iteration as soon as it has been
  evaluated, whatever its \<open>check\<close> returned: the rules after it contribute nothing.
\<close>

theorem apply_rules_failed_max:
  "prefix (reached item h rs) rs \<and>
   ((\<forall>r \<in> set (reached item h rs). runs item h r) \<longrightarrow>
      apply_rules item h rs = Inr (Max (insert 0 (severity ` set (failed_rules item h rs))))) \<and>
   (matches r item h = Inr True \<and> stop r \<longrightarrow>
      reached item h (pre @ r # post) = reached item h (pre @ [r]) \<and>
      apply_rules item h (pre @ r # post) = apply_rules item h (pre @ [r]))"
  using loop_max [of item h rs 0] loop_stop [of r item h 0 pre post] reached_stop [of r item h pre post]
    reached_prefix [of item h rs]
  by (simp add: apply_rules_def)

theorem apply_rules_failed_max_witness:
  "list_all (runs (Tray tray_one) ''h'')
     (reached (Tray tray_one) ''h''
        [tray_rule\<lparr>status := Some 5, severity := 1\<rparr>, tray_rule\<lparr>status := Some 3\<rparr>,
         tray_rule\<lparr>status := Some 3, severity := 1\<rparr>]) \<and>
   apply_rules (Tray tray_one) ''h''
        [tray_rule\<lparr>status := Some 5, severity := 1\<rparr>, tray_rule\<lparr>status := Some 3\<rparr>,
         tray_rule\<lparr>status := Some 3, severity := 1\<rparr>] = Inr 2 \<and>
   matches (tray_rule\<lparr>status := Some 5, stop := True\<rparr>) (Tray tray_one) ''h'' = Inr True \<and>
   stop (tray_rule\<lparr>status := Some 5, stop := True\<rparr>) \<and>
   apply_rules (Tray tray_one) ''h''
        [tray_rule\<lparr>status := Some 5, stop := True\<rparr>, tray_rule\<lparr>status := Some 3\<rparr>] = Inr 0"
  using apply_rules_failed_max [of "Tray tray_one" "''h''"
        "[tray_rule\<lparr>status := Some 5, severity := 1\<rparr>, tray_rule\<lparr>status := Some 3\<rparr>,
         tray_rule\<lparr>status := Some 3, severity := 1\<rparr>]" "tray_rule\<lparr>status := Some 5, stop := True\<rparr>"
        "[]" "[tray_rule\<lparr>status := Some 3\<rparr>]"]
  by (simp add: rule_eval)

text \<open>
  C3, as stated: for a supply with a level of at least 0, a matching rule without a
  threshold has no effect: it contributes no severity to the status of the part. In the
  source \<open>check\<close> returns False for such a rule and \<open>apply_rules\<close> counts a False check:
  the toner at 75 percent gets the status 2 from a rule without a threshold, and the
  status 0 without the rule.
\<close>

theorem threshold_less_rule_contributes:
  "supply_level black_toner \<ge> 0 \<and> threshold toner_rule = None \<and>
   matches toner_rule (Supply black_toner) ''h'' = Inr True \<and>
   apply_rules (Supply black_toner) ''h'' [] = Inr 0 \<and>
   apply_rules (Supply black_toner) ''h'' [toner_rule] = Inr 2"
  by (simp add: rule_eval)

text \<open>
  C3, amended: for a supply whose level is neither -3 nor -2 and a matching rule without
  a threshold, \<open>check\<close> returns False, and \<open>apply_rules\<close> counts the rule: evaluated alone
  it gives the status max(0, severity), and whenever the iteration reaches the rule the
  resulting status is at least the severity of the rule.
\<close>

theorem threshold_less_rule_counts:
  assumes "supply_level s \<noteq> -3" and "supply_level s \<noteq> -2" and "threshold r = None"
    and "matches r (Supply s) h = Inr True"
  shows "check_supply s r = Inr False \<and>
     apply_rules (Supply s) h [r] = Inr (max 0 (severity r)) \<and>
     (\<forall>rs v. r \<in> set (reached (Supply s) h rs) \<and> apply_rules (Supply s) h rs = Inr v
        \<longrightarrow> severity r \<le> v)"
proof -
  have c: "check_supply s r = Inr False" using assms by (simp add: check_supply_def)
  then have "apply_rules (Supply s) h [r] = Inr (max 0 (severity r))"
    using assms(4) by (simp add: apply_rules_def max_def)
  moreover have "\<forall>rs v. r \<in> set (reached (Supply s) h rs) \<and> apply_rules (Supply s) h rs = Inr v
        \<longrightarrow> severity r \<le> v"
    using loop_reached_ge [of r "Supply s" h _ 0] assms(4) c by (auto simp: apply_rules_def)
  ultimately show ?thesis using c by simp
qed

theorem threshold_less_rule_counts_witness:
  "supply_level black_toner \<noteq> -3 \<and> supply_level black_toner \<noteq> -2 \<and> threshold toner_rule = None \<and>
   matches toner_rule (Supply black_toner) ''h'' = Inr True \<and>
   check_supply black_toner toner_rule = Inr False \<and>
   apply_rules (Supply black_toner) ''h'' [toner_rule] = Inr 2"
  using threshold_less_rule_counts [of black_toner toner_rule "''h''"]
  by (simp add: rule_eval)

section \<open>Properties of the device severity\<close>

lemma foldl_cap:
  "foldl (\<lambda>m item. let val = min item 4 in if val > m then val else m) (m::int) walk
     = Max (insert m ((\<lambda>x. min x 4) ` set walk))"
proof (induction walk arbitrary: m)
  case Nil
  then show ?case by simp
next
  case (Cons x xs)
  let ?S = "(\<lambda>x. min x 4) ` set xs"
  have fin: "finite ?S" by simp
  have step: "(let val = min x 4 in if val > m then val else m) = max m (min x 4)"
    by (auto simp: Let_def max_def min_def)
  have "Max (insert (max m (min x 4)) ?S) = Max (insert m (insert (min x 4) ?S))"
  proof (cases "?S = {}")
    case True
    then show ?thesis by simp
  next
    case False
    with fin show ?thesis by (simp add: max.assoc)
  qed
  then show ?case using Cons.IH [of "max m (min x 4)"] step by simp
qed

lemma cap_Max: "walk \<noteq> [] \<Longrightarrow> Max ((\<lambda>x. min x (4::int)) ` set walk) = min (Max (set walk)) 4"
  by (metis List.finite_set mono_Max_commute set_empty2 monoI min.mono order_refl)

text \<open>
  C7, as stated: the severity is the image of the greatest alarm code under the mapping
  4 to 1, 3 to 2, every other code (also a code above 4) to 0. The source caps every code
  at 4, so a walk with the single code 5 gives severity 1, not 0.
\<close>

theorem get_max_severity_level_above_four:
  "get_max_severity_level [5] = 1 \<and> spec_max_severity [5] = 0"
  by (simp add: get_max_severity_level_def spec_max_severity_def spec_code_severity_def)

text \<open>
  C7, amended: the severity is the image of the greatest alarm code, capped at 4, under
  the mapping 4 to 1, 3 to 2, every other code to 0; so a greatest code of 4 or more gives
  1. An empty walk gives 0. The result depends on the set of the codes only.
\<close>

theorem get_max_severity_level_capped:
  "get_max_severity_level walk =
     (if walk = [] then 0 else spec_code_severity (min (Max (set walk)) 4))"
proof (cases "walk = []")
  case True
  then show ?thesis by (simp add: get_max_severity_level_def)
next
  case False
  then have "Max (insert 0 ((\<lambda>x. min x 4) ` set walk)) = max 0 (min (Max (set walk)) 4)"
    using cap_Max [OF False] by simp
  then have "foldl (\<lambda>m item. let val = min item 4 in if val > m then val else m) 0 walk
      = max 0 (min (Max (set walk)) 4)"
    by (simp only: foldl_cap)
  then show ?thesis using False
    unfolding get_max_severity_level_def spec_code_severity_def
    by (simp only: Let_def) (auto simp: max_def)
qed

theorem get_max_severity_level_capped_witness:
  "get_max_severity_level [2, 7, 3] = 1 \<and> get_max_severity_level [3, 1] = 2 \<and>
   get_max_severity_level [] = 0"
  using get_max_severity_level_capped [of "[2, 7, 3]"] get_max_severity_level_capped [of "[3, 1]"]
    get_max_severity_level_capped [of "[]"]
  by (simp add: spec_code_severity_def)

section \<open>Properties of the error summary\<close>

lemma length_sort_err_parts: "length (sort_err_parts xs) = length xs"
  by (simp add: sort_err_parts_def)

lemma sorted_sort_err_parts: "sorted_wrt (\<lambda>a b. snd a \<ge> snd b) (sort_err_parts xs)"
proof -
  have "sorted (map snd (sort_key snd xs))" by simp
  then have "sorted_wrt (\<lambda>a b. snd a \<le> snd b) (sort_key snd xs)"
    by (simp add: sorted_wrt_map)
  then show ?thesis
    by (simp add: sort_err_parts_def sorted_wrt_rev)
qed

lemma first_greatest:
  assumes "e \<in> set xs"
  shows "snd e \<le> snd (sort_err_parts xs ! 0)"
proof -
  from assms have "e \<in> set (sort_err_parts xs)" by (simp add: sort_err_parts_def)
  then obtain i where i: "i < length (sort_err_parts xs)" "sort_err_parts xs ! i = e"
    by (auto simp: in_set_conv_nth)
  show ?thesis
  proof (cases i)
    case 0
    with i show ?thesis by simp
  next
    case (Suc j)
    with i sorted_sort_err_parts [of xs] show ?thesis
      by (metis sorted_wrt_iff_nth_less zero_less_Suc)
  qed
qed

lemma first_member:
  assumes "xs \<noteq> []"
  shows "sort_err_parts xs ! 0 \<in> set xs"
proof -
  from assms have "0 < length (sort_err_parts xs)" by (simp add: length_sort_err_parts)
  then have "sort_err_parts xs ! 0 \<in> set (sort_err_parts xs)" by (rule nth_mem)
  then show ?thesis by (simp add: sort_err_parts_def)
qed

lemma str_nat_examples: "str_nat 0 = ''0''" "str_nat 7 = ''7''" "str_nat 12 = ''12''" "str_nat 305 = ''305''"
  by simp_all

lemma str_err_parts_one:
  "length errs = 1 \<Longrightarrow> str_err_parts errs = ''Alert for '' @ fst (sort_err_parts errs ! 0)"
  unfolding str_err_parts_def Let_def length_sort_err_parts by simp

lemma str_err_parts_more:
  "length errs > 1 \<Longrightarrow> str_err_parts errs =
     ''Alert for '' @ fst (sort_err_parts errs ! 0) @ '' and '' @ str_nat (length errs - 1)
       @ '' more failures(s)''"
  unfolding str_err_parts_def Let_def length_sort_err_parts by auto

text \<open>
  \<open>err_parts\<close> after the sort is a permutation of the violated parts in descending order
  of severity, and its first part, the one the summary names, is a part of the greatest
  severity. The summary is empty for no violation and "Alert for <name>" for one; for more
  it is "Alert for <name> and N more failures(s)", with the wording of the format string
  of the source.
\<close>

lemma error_summary_sorted:
  "sorted_wrt (\<lambda>a b. snd a \<ge> snd b) (sort_err_parts errs) \<and>
   mset (sort_err_parts errs) = mset errs \<and>
   (errs = [] \<longrightarrow> str_err_parts errs = '''') \<and>
   (errs \<noteq> [] \<longrightarrow> sort_err_parts errs ! 0 \<in> set errs \<and>
      (\<forall>e \<in> set errs. snd e \<le> snd (sort_err_parts errs ! 0))) \<and>
   (length errs = 1 \<longrightarrow> str_err_parts errs = ''Alert for '' @ fst (sort_err_parts errs ! 0)) \<and>
   (length errs > 1 \<longrightarrow> str_err_parts errs =
      ''Alert for '' @ fst (sort_err_parts errs ! 0) @ '' and '' @ str_nat (length errs - 1)
        @ '' more failures(s)'')"
proof -
  have "mset (sort_err_parts errs) = mset errs" by (simp add: sort_err_parts_def)
  moreover have "errs = [] \<longrightarrow> str_err_parts errs = ''''"
    by (simp add: str_err_parts_def sort_err_parts_def)
  ultimately show ?thesis
    using sorted_sort_err_parts [of errs] first_greatest [of _ errs] first_member [of errs]
      str_err_parts_one [of errs] str_err_parts_more [of errs]
    by blast
qed

lemma error_summary_examples:
  "sort_err_parts [(''Fuser'', 1), (''Black Toner'', 2)] = [(''Black Toner'', 2), (''Fuser'', 1)]"
  "str_err_parts [(''Fuser'', 1)] = ''Alert for Fuser''"
  "str_err_parts [] = ''''"
  by (simp_all add: str_err_parts_def sort_err_parts_def Let_def)

text \<open>
  C8. The claim: \<open>err_parts\<close> is sorted by descending severity and the summary is the
  empty string, "Alert for <name>", or "Alert for <name> and N more failure(s)" for N+1
  violations. For the violations [("Black Toner", 2), ("Fuser", 1)] the sort and the name
  are as claimed, and the summary ends in "more failures(s)": the format string of the
  source has a letter too many.
\<close>

theorem str_err_parts_wording:
  "sort_err_parts [(''Black Toner'', 2), (''Fuser'', 1)] = [(''Black Toner'', 2), (''Fuser'', 1)] \<and>
   str_err_parts [(''Black Toner'', 2), (''Fuser'', 1)]
     = ''Alert for Black Toner and 1 more failures(s)'' \<and>
   str_err_parts [(''Black Toner'', 2), (''Fuser'', 1)]
     \<noteq> ''Alert for Black Toner and 1 more failure(s)''"
  by (simp add: str_err_parts_def sort_err_parts_def Let_def)

section \<open>Properties of polling the hosts\<close>

text \<open>
  When every device either is unreachable or answers with data that has an info dict, the
  loop runs to its end and every device of the list has a document afterwards.
\<close>

lemma check_printers_loop_completes:
  assumes "\<forall>i<length h. cp (k + i) (h ! i) = Inl EasySNMPConnectionError \<or>
           (\<exists>d. cp (k + i) (h ! i) = Inr d \<and> info d \<noteq> None)"
  shows "snd (check_printers_loop cp now k database h) = None \<and>
     (\<forall>dev. dev \<in> set h \<or> database dev \<noteq> None \<longrightarrow>
        fst (check_printers_loop cp now k database h) dev \<noteq> None)"
  using assms
proof (induction h arbitrary: k database)
  case Nil
  then show ?case by simp
next
  case (Cons dev h)
  have good: "cp k dev = Inl EasySNMPConnectionError \<or> (\<exists>d. cp k dev = Inr d \<and> info d \<noteq> None)"
    using Cons.prems by force
  then obtain X where "check_printers_loop cp now k database (dev # h)
      = check_printers_loop cp now (Suc k) (database(dev \<mapsto> X)) h"
    by (auto simp: finally_clause_def Let_def)
  then obtain db' where step: "check_printers_loop cp now k database (dev # h)
      = check_printers_loop cp now (Suc k) db' h"
    and db': "db' dev \<noteq> None" "\<forall>x. database x \<noteq> None \<longrightarrow> db' x \<noteq> None"
    by fastforce
  have shifted: "\<forall>i<length h. cp (Suc k + i) (h ! i) = Inl EasySNMPConnectionError \<or>
           (\<exists>d. cp (Suc k + i) (h ! i) = Inr d \<and> info d \<noteq> None)"
  proof (intro allI impI)
    fix i assume "i < length h"
    then have "Suc i < length (dev # h)" by simp
    from Cons.prems[rule_format, OF this] show "cp (Suc k + i) (h ! i) = Inl EasySNMPConnectionError \<or>
           (\<exists>d. cp (Suc k + i) (h ! i) = Inr d \<and> info d \<noteq> None)" by simp
  qed
  from Cons.IH [OF shifted, of db'] db' show ?case
    unfolding step by auto
qed

text \<open>
  On a list without repetition, the document of an unreachable device is the one the
  iteration started from with its "info" replaced; devices outside the list keep their
  documents.
\<close>

lemma check_printers_loop_offline:
  assumes "distinct h"
    and "\<forall>i<length h. cp (k + i) (h ! i) = Inl EasySNMPConnectionError \<or>
           (\<exists>d. cp (k + i) (h ! i) = Inr d \<and> info d \<noteq> None)"
  shows "(\<forall>dev. dev \<notin> set h \<longrightarrow> fst (check_printers_loop cp now k database h) dev = database dev) \<and>
     (\<forall>i<length h. cp (k + i) (h ! i) = Inl EasySNMPConnectionError \<longrightarrow>
        fst (check_printers_loop cp now k database h) (h ! i) =
          Some ((get_dataset database (h ! i))
                  \<lparr>info := Some ((offline_info (h ! i))(''checked'' \<mapsto> JStr (now (k + i))))\<rparr>))"
  using assms
proof (induction h arbitrary: k database)
  case Nil
  then show ?case by simp
next
  case (Cons dev h)
  have good: "cp k dev = Inl EasySNMPConnectionError \<or> (\<exists>d. cp k dev = Inr d \<and> info d \<noteq> None)"
    using Cons.prems(2) by force
  define X where "X = (case cp k dev of
       Inr d \<Rightarrow> d\<lparr>info := Some ((the (info d))(''checked'' \<mapsto> JStr (now k)))\<rparr>
     | Inl e \<Rightarrow> (get_dataset database dev)\<lparr>info := Some ((offline_info dev)(''checked'' \<mapsto> JStr (now k)))\<rparr>)"
  define db' where "db' = database(dev \<mapsto> X)"
  have step: "check_printers_loop cp now k database (dev # h) = check_printers_loop cp now (Suc k) db' h"
    using good by (auto simp: finally_clause_def X_def db'_def Let_def)
  have d: "distinct h" "dev \<notin> set h" using Cons.prems(1) by auto
  have shifted: "\<forall>i<length h. cp (Suc k + i) (h ! i) = Inl EasySNMPConnectionError \<or>
           (\<exists>d. cp (Suc k + i) (h ! i) = Inr d \<and> info d \<noteq> None)"
  proof (intro allI impI)
    fix i assume "i < length h"
    then have "Suc i < length (dev # h)" by simp
    from Cons.prems(2)[rule_format, OF this] show "cp (Suc k + i) (h ! i) = Inl EasySNMPConnectionError \<or>
           (\<exists>d. cp (Suc k + i) (h ! i) = Inr d \<and> info d \<noteq> None)" by simp
  qed
  note ih = Cons.IH [OF d(1) shifted, of db']
  let ?res = "check_printers_loop cp now (Suc k) db' h"
  have ih2: "\<forall>x. x \<notin> set h \<longrightarrow> fst ?res x = db' x" using ih by blast
  have ih4: "\<forall>i<length h. cp (Suc k + i) (h ! i) = Inl EasySNMPConnectionError \<longrightarrow>
        fst ?res (h ! i) =
          Some ((get_dataset db' (h ! i))
                  \<lparr>info := Some ((offline_info (h ! i))(''checked'' \<mapsto> JStr (now (Suc k + i))))\<rparr>)"
    using ih by blast
  have b: "\<forall>x. x \<notin> set (dev # h) \<longrightarrow> fst ?res x = database x"
    using ih2 by (simp add: db'_def)
  have head: "fst ?res dev = Some X" using ih2 d(2) by (simp add: db'_def)
  have e: "\<forall>i<length (dev # h). cp (k + i) ((dev # h) ! i) = Inl EasySNMPConnectionError \<longrightarrow>
        fst ?res ((dev # h) ! i) =
          Some ((get_dataset database ((dev # h) ! i))
                  \<lparr>info := Some ((offline_info ((dev # h) ! i))(''checked'' \<mapsto> JStr (now (k + i))))\<rparr>)"
  proof (intro allI impI)
    fix i assume i: "i < length (dev # h)" and ce: "cp (k + i) ((dev # h) ! i) = Inl EasySNMPConnectionError"
    show "fst ?res ((dev # h) ! i) =
          Some ((get_dataset database ((dev # h) ! i))
                  \<lparr>info := Some ((offline_info ((dev # h) ! i))(''checked'' \<mapsto> JStr (now (k + i))))\<rparr>)"
    proof (cases i)
      case 0
      with ce head show ?thesis by (simp add: X_def)
    next
      case (Suc j)
      with i have j: "j < length h" by simp
      then have "h ! j \<noteq> dev" using d(2) by (metis nth_mem)
      then have "get_dataset db' (h ! j) = get_dataset database (h ! j)"
        by (simp add: get_dataset_def db'_def)
      with ih4 j ce Suc show ?thesis by simp
    qed
  qed
  show ?case unfolding step using b e by blast
qed

text \<open>An exception other than the connection error is not caught: it ends the loop.\<close>

lemma check_printers_loop_aborts:
  assumes "cp k dev = Inl e" and "e \<noteq> EasySNMPConnectionError"
  shows "snd (check_printers_loop cp now k database (dev # h)) \<noteq> None"
  using assms by (auto simp: Let_def split: sum.splits)

text \<open>The loop changes the documents of the devices of its list only.\<close>

lemma check_printers_loop_other:
  "dev \<notin> set h \<Longrightarrow> fst (check_printers_loop cp now i database h) dev = database dev"
proof (induction h arbitrary: i database)
  case Nil
  then show ?case by simp
next
  case (Cons x h)
  then have ne: "x \<noteq> dev" and rest: "dev \<notin> set h" by auto
  have ih: "\<And>j db. fst (check_printers_loop cp now j db h) dev = db dev"
    using Cons.IH [OF rest] .
  show ?case
    using ne by (auto simp: Let_def finally_clause_def ih split: sum.splits option.splits)
qed

text \<open>A list is processed part by part: when the loop has gone through a first part of the
  list without an exception, it goes on with the rest from the database it has reached.\<close>

lemma check_printers_loop_append:
  "check_printers_loop cp now i database pre = (db1, None) \<Longrightarrow>
   check_printers_loop cp now i database (pre @ rest)
     = check_printers_loop cp now (i + length pre) db1 rest"
proof (induction pre arbitrary: i database)
  case Nil
  then show ?case by simp
next
  case (Cons x pre)
  show ?case
  proof (cases "check_printers_loop cp now i database [x]")
    case (Pair db' res)
    have split: "\<And>tl. check_printers_loop cp now i database (x # tl)
        = (case res of None \<Rightarrow> check_printers_loop cp now (Suc i) db' tl | Some e \<Rightarrow> (db', Some e))"
      using Pair
      by (auto simp: Let_def finally_clause_def split: sum.splits option.splits if_splits)
    from Cons.prems split [of pre] have res: "res = None"
      by (cases res) auto
    with Cons.prems split [of pre]
    have "check_printers_loop cp now (Suc i) db' pre = (db1, None)" by simp
    from Cons.IH [OF this] split [of "pre @ rest"] res show ?thesis by simp
  qed
qed

text \<open>
  The iteration on an unreachable device stores the document it started from with its
  "info" replaced, and the loop goes on with the devices after it, whatever they are.
\<close>

lemma check_printers_loop_step_offline:
  "cp i dev = Inl EasySNMPConnectionError \<Longrightarrow>
   check_printers_loop cp now i database (dev # h)
     = check_printers_loop cp now (Suc i)
         (database(dev \<mapsto> (get_dataset database dev)
            \<lparr>info := Some ((offline_info dev)(''checked'' \<mapsto> JStr (now i)))\<rparr>)) h"
  by (simp add: finally_clause_def)

text \<open>
  C9, as stated: after a connection failure the stored record of the host is the info
  record alone, with empty supply and tray lists. The handler assigns
  \<open>dataset["data"]["info"]\<close> only: for a host that is already stored, the supplies and the
  trays of the last successful check stay in the record.
\<close>

theorem check_printers_keeps_stored_parts:
  "fst (check_printers first_offline clock [''printer1'' \<mapsto> stored_printer] [''printer1'']) ''printer1'' =
     Some \<lparr>info = Some [''max_status'' \<mapsto> JInt 2, ''name'' \<mapsto> JStr ''printer1'',
                        ''alerts'' \<mapsto> JStr ''Printer offline'', ''rgb'' \<mapsto> JStr ''#DC143C'',
                        ''checked'' \<mapsto> JStr ''01.02.2020 10:00:00''],
            supplies = Some [''Black Toner''], trays = Some [''Tray 1'']\<rparr>"
  by (simp add: check_printers_def first_offline_def finally_clause_def get_dataset_def
      stored_printer_def offline_info_def HEADER_CRITICAL_def clock_def)

text \<open>
  C9, amended: for every host list, a connection failure while checking one host does not
  abort the processing of the remaining hosts: the run on the whole list is the run on the
  hosts after the failed one, from the database in which the record of the failed host has
  been stored. That record is the one the host had when its check started (an empty one
  for a host not in the database) with its info replaced by max_status 2, the host as
  name, the alert "Printer offline", the critical header color and the checked timestamp;
  its supply and tray lists are left as they were (absent for a new host). It is the
  record of the host at the end unless the host occurs again later in the list. Here
  \<open>pre\<close> are the hosts before the failed one, which the loop has gone through, and \<open>db1\<close>
  is the database at that point.
\<close>

theorem check_printers_offline:
  assumes "check_printers_loop cp now 0 database pre = (db1, None)"
    and "cp (length pre) dev = Inl EasySNMPConnectionError"
  shows "check_printers cp now database (pre @ dev # post)
      = check_printers_loop cp now (Suc (length pre))
          (db1(dev \<mapsto> (get_dataset db1 dev)
             \<lparr>info := Some [''max_status'' \<mapsto> JInt 2, ''name'' \<mapsto> JStr dev,
                 ''alerts'' \<mapsto> JStr ''Printer offline'', ''rgb'' \<mapsto> JStr HEADER_CRITICAL,
                 ''checked'' \<mapsto> JStr (now (length pre))]\<rparr>)) post \<and>
     (dev \<notin> set post \<longrightarrow>
        fst (check_printers cp now database (pre @ dev # post)) dev
          = Some ((get_dataset db1 dev)
             \<lparr>info := Some [''max_status'' \<mapsto> JInt 2, ''name'' \<mapsto> JStr dev,
                 ''alerts'' \<mapsto> JStr ''Printer offline'', ''rgb'' \<mapsto> JStr HEADER_CRITICAL,
                 ''checked'' \<mapsto> JStr (now (length pre))]\<rparr>))"
proof -
  let ?D = "(get_dataset db1 dev)
             \<lparr>info := Some [''max_status'' \<mapsto> JInt 2, ''name'' \<mapsto> JStr dev,
                 ''alerts'' \<mapsto> JStr ''Printer offline'', ''rgb'' \<mapsto> JStr HEADER_CRITICAL,
                 ''checked'' \<mapsto> JStr (now (length pre))]\<rparr>"
  have "check_printers cp now database (pre @ dev # post)
      = check_printers_loop cp now (length pre) db1 (dev # post)"
    using check_printers_loop_append [OF assms(1), of "dev # post"] by (simp add: check_printers_def)
  also have "\<dots> = check_printers_loop cp now (Suc (length pre)) (db1(dev \<mapsto> ?D)) post"
    using check_printers_loop_step_offline [where cp = cp and i = "length pre" and dev = dev and now = now
        and database = db1 and h = post] assms(2)
    by (simp add: offline_info_def)
  finally have run: "check_printers cp now database (pre @ dev # post)
      = check_printers_loop cp now (Suc (length pre)) (db1(dev \<mapsto> ?D)) post" .
  have "dev \<notin> set post \<longrightarrow> fst (check_printers cp now database (pre @ dev # post)) dev = Some ?D"
    unfolding run using check_printers_loop_other [of dev post cp now "Suc (length pre)" "db1(dev \<mapsto> ?D)"] by simp
  with run show ?thesis by blast
qed

theorem check_printers_offline_witness:
  "check_printers_loop second_offline clock 0 [''printer2'' \<mapsto> stored_printer] [''printer1'']
     = ([''printer2'' \<mapsto> stored_printer,
         ''printer1'' \<mapsto> \<lparr>info = Some [''name'' \<mapsto> JStr ''printer1'',
              ''checked'' \<mapsto> JStr ''01.02.2020 10:00:00''], supplies = Some [], trays = Some []\<rparr>], None) \<and>
   second_offline (length [''printer1'']) ''printer2'' = Inl EasySNMPConnectionError \<and>
   ''printer2'' \<notin> set [''printer3''] \<and>
   snd (check_printers second_offline clock [''printer2'' \<mapsto> stored_printer]
          ([''printer1''] @ ''printer2'' # [''printer3''])) = None \<and>
   fst (check_printers second_offline clock [''printer2'' \<mapsto> stored_printer]
          ([''printer1''] @ ''printer2'' # [''printer3''])) ''printer3'' \<noteq> None \<and>
   fst (check_printers second_offline clock [''printer2'' \<mapsto> stored_printer]
          ([''printer1''] @ ''printer2'' # [''printer3''])) ''printer2''
     = Some \<lparr>info = Some [''max_status'' \<mapsto> JInt 2, ''name'' \<mapsto> JStr ''printer2'',
                 ''alerts'' \<mapsto> JStr ''Printer offline'', ''rgb'' \<mapsto> JStr ''#DC143C'',
                 ''checked'' \<mapsto> JStr ''01.02.2020 10:00:01''],
            supplies = Some [''Black Toner''], trays = Some [''Tray 1'']\<rparr>"
proof -
  let ?db = "[''printer2'' \<mapsto> stored_printer]"
  let ?db1 = "[''printer2'' \<mapsto> stored_printer,
         ''printer1'' \<mapsto> \<lparr>info = Some [''name'' \<mapsto> JStr ''printer1'',
              ''checked'' \<mapsto> JStr ''01.02.2020 10:00:00''], supplies = Some [], trays = Some []\<rparr>]"
  have pre: "check_printers_loop second_offline clock 0 ?db [''printer1''] = (?db1, None)"
    by (simp add: second_offline_def finally_clause_def clock_def)
  have off: "second_offline (length [''printer1'']) ''printer2'' = Inl EasySNMPConnectionError"
    by (simp add: second_offline_def)
  let ?D = "\<lparr>info = Some [''max_status'' \<mapsto> JInt 2, ''name'' \<mapsto> JStr ''printer2'',
                 ''alerts'' \<mapsto> JStr ''Printer offline'', ''rgb'' \<mapsto> JStr ''#DC143C'',
                 ''checked'' \<mapsto> JStr ''01.02.2020 10:00:01''],
            supplies = Some [''Black Toner''], trays = Some [''Tray 1'']\<rparr>"
  have D: "(get_dataset ?db1 ''printer2'')
             \<lparr>info := Some [''max_status'' \<mapsto> JInt 2, ''name'' \<mapsto> JStr ''printer2'',
                 ''alerts'' \<mapsto> JStr ''Printer offline'', ''rgb'' \<mapsto> JStr HEADER_CRITICAL,
                 ''checked'' \<mapsto> JStr (clock (length [''printer1'']))]\<rparr> = ?D"
    by (simp add: get_dataset_def stored_printer_def HEADER_CRITICAL_def clock_def)
  note t = check_printers_offline [OF pre off, of "[''printer3'']", unfolded D]
  from t have run: "check_printers second_offline clock ?db ([''printer1''] @ ''printer2'' # [''printer3''])
      = check_printers_loop second_offline clock (Suc (length [''printer1''])) (?db1(''printer2'' \<mapsto> ?D))
          [''printer3'']"
    by blast
  have nin: "''printer2'' \<notin> set [''printer3'']" by simp
  from t nin have rec: "fst (check_printers second_offline clock ?db
        ([''printer1''] @ ''printer2'' # [''printer3''])) ''printer2'' = Some ?D"
    by blast
  have last: "snd (check_printers_loop second_offline clock (Suc (length [''printer1'']))
      (?db1(''printer2'' \<mapsto> ?D)) [''printer3'']) = None"
    "fst (check_printers_loop second_offline clock (Suc (length [''printer1'']))
      (?db1(''printer2'' \<mapsto> ?D)) [''printer3'']) ''printer3'' \<noteq> None"
    by (simp_all add: second_offline_def finally_clause_def)
  have "snd (check_printers second_offline clock ?db ([''printer1''] @ ''printer2'' # [''printer3''])) = None"
    and "fst (check_printers second_offline clock ?db ([''printer1''] @ ''printer2'' # [''printer3''])) ''printer3'' \<noteq> None"
    using last unfolding run by blast+
  with rec
  show ?thesis using pre off nin by simp
qed

section \<open>Properties of assembling the parts\<close>

text \<open>
  The inner loop, started at an index within the list or just behind it, never raises for a
  key of the table: it extends the list to the length of the walk, gives the i-th value to
  the i-th part and leaves the other parts as they are.
\<close>

lemma walk_loop_fill:
  assumes "map_of (STRUCTURE typ) key = Some attr" and "idx \<le> length items"
  shows "\<exists>items'. walk_loop typ key items idx es = Inr items' \<and>
     length items' = max (length items) (idx + length es) \<and>
     (\<forall>i<length items'. items' ! i =
        (if idx \<le> i \<and> i < idx + length es
         then (if i < length items then items ! i else new_part typ)(''_'' @ attr \<mapsto> decode (es ! (i - idx)))
         else items ! i))"
  using assms(2)
proof (induction es arbitrary: items idx)
  case Nil
  then show ?case by (auto simp: max_def)
next
  case (Cons e es)
  let ?np = "new_part typ"
  show ?case
  proof (cases "idx = length items")
    case True
    let ?items2 = "items @ [?np(''_'' @ attr \<mapsto> decode e)]"
    have step: "walk_loop typ key items idx (e # es) = walk_loop typ key ?items2 (Suc idx) es"
      using True assms(1) by (simp add: add_data_def Let_def)
    have "Suc idx \<le> length ?items2" using True by simp
    from Cons.IH [OF this] obtain items' where
      r: "walk_loop typ key ?items2 (Suc idx) es = Inr items'"
      and l: "length items' = max (length ?items2) (Suc idx + length es)"
      and n: "\<forall>i<length items'. items' ! i =
        (if Suc idx \<le> i \<and> i < Suc idx + length es
         then (if i < length ?items2 then ?items2 ! i else ?np)(''_'' @ attr \<mapsto> decode (es ! (i - Suc idx)))
         else ?items2 ! i)"
      by blast
    have l': "length items' = max (length items) (idx + length (e # es))"
      using l True by simp
    have n': "\<forall>i<length items'. items' ! i =
        (if idx \<le> i \<and> i < idx + length (e # es)
         then (if i < length items then items ! i else ?np)(''_'' @ attr \<mapsto> decode ((e # es) ! (i - idx)))
         else items ! i)"
    proof (intro allI impI)
      fix i assume i: "i < length items'"
      consider "i < idx" | "i = idx" | "idx < i" by linarith
      then show "items' ! i =
        (if idx \<le> i \<and> i < idx + length (e # es)
         then (if i < length items then items ! i else ?np)(''_'' @ attr \<mapsto> decode ((e # es) ! (i - idx)))
         else items ! i)"
      proof cases
        case 1
        with n i True show ?thesis by (simp add: nth_append)
      next
        case 2
        with n i True show ?thesis by (simp add: nth_append)
      next
        case 3
        then have "(e # es) ! (i - idx) = es ! (i - Suc idx)" by (simp add: nth_Cons')
        with 3 n i l True show ?thesis by (simp add: nth_append)
      qed
    qed
    show ?thesis unfolding step using r l' n' by blast
  next
    case False
    with Cons.prems have lt: "idx < length items" by simp
    let ?items2 = "items[idx := (items ! idx)(''_'' @ attr \<mapsto> decode e)]"
    have step: "walk_loop typ key items idx (e # es) = walk_loop typ key ?items2 (Suc idx) es"
      using lt assms(1) by (simp add: add_data_def Let_def)
    have "Suc idx \<le> length ?items2" using lt by simp
    from Cons.IH [OF this] obtain items' where
      r: "walk_loop typ key ?items2 (Suc idx) es = Inr items'"
      and l: "length items' = max (length ?items2) (Suc idx + length es)"
      and n: "\<forall>i<length items'. items' ! i =
        (if Suc idx \<le> i \<and> i < Suc idx + length es
         then (if i < length ?items2 then ?items2 ! i else ?np)(''_'' @ attr \<mapsto> decode (es ! (i - Suc idx)))
         else ?items2 ! i)"
      by blast
    have l': "length items' = max (length items) (idx + length (e # es))"
      using l lt by simp
    have n': "\<forall>i<length items'. items' ! i =
        (if idx \<le> i \<and> i < idx + length (e # es)
         then (if i < length items then items ! i else ?np)(''_'' @ attr \<mapsto> decode ((e # es) ! (i - idx)))
         else items ! i)"
    proof (intro allI impI)
      fix i assume i: "i < length items'"
      consider "i < idx" | "i = idx" | "idx < i" by linarith
      then show "items' ! i =
        (if idx \<le> i \<and> i < idx + length (e # es)
         then (if i < length items then items ! i else ?np)(''_'' @ attr \<mapsto> decode ((e # es) ! (i - idx)))
         else items ! i)"
      proof cases
        case 1
        with n i lt show ?thesis by simp
      next
        case 2
        with n i lt show ?thesis by simp
      next
        case 3
        then have "(e # es) ! (i - idx) = es ! (i - Suc idx)" by (simp add: nth_Cons')
        with 3 n i l lt show ?thesis by simp
      qed
    qed
    show ?thesis unfolding step using r l' n' by blast
  qed
qed

text \<open>
  The outer loop over keys that set different attributes: an attribute of the i-th part
  holds the i-th value of the walk of its key when the walk is long enough, and is as
  before otherwise.
\<close>

lemma parse_keys_fill:
  assumes "\<forall>k \<in> set keys. map_of (STRUCTURE typ) k \<noteq> None"
    and "inj_on (attr_name typ) (set keys)"
  shows "\<exists>items'. parse_keys typ walk items keys = Inr items' \<and>
     length items' = Max (insert (length items) ((\<lambda>k. length (walk k)) ` set keys)) \<and>
     (\<forall>i<length items'.
        (\<forall>k \<in> set keys. i < length (walk k) \<longrightarrow>
           (items' ! i) (attr_name typ k) = Some (decode (walk k ! i))) \<and>
        (\<forall>n. (\<forall>k \<in> set keys. i < length (walk k) \<longrightarrow> attr_name typ k \<noteq> n) \<longrightarrow>
           (items' ! i) n = (if i < length items then items ! i else new_part typ) n))"
  using assms
proof (induction keys arbitrary: items)
  case Nil
  then show ?case by simp
next
  case (Cons k ks)
  from Cons.prems(1) obtain attr where attr: "map_of (STRUCTURE typ) k = Some attr" by auto
  then have an: "attr_name typ k = ''_'' @ attr" by (simp add: attr_name_def)
  from walk_loop_fill [OF attr, of 0 items "walk k"] obtain items1 where
    r1: "walk_loop typ k items 0 (walk k) = Inr items1"
    and l1: "length items1 = max (length items) (length (walk k))"
    and n1: "\<forall>i<length items1. items1 ! i =
        (if i < length (walk k)
         then (if i < length items then items ! i else new_part typ)(attr_name typ k \<mapsto> decode (walk k ! i))
         else items ! i)"
    using an by auto
  have p1: "\<forall>k \<in> set ks. map_of (STRUCTURE typ) k \<noteq> None" using Cons.prems(1) by simp
  have p2: "inj_on (attr_name typ) (set ks)" using Cons.prems(2) by (simp add: inj_on_def)
  from Cons.IH [OF p1 p2, of items1] obtain items' where
    r: "parse_keys typ walk items1 ks = Inr items'"
    and l: "length items' = Max (insert (length items1) ((\<lambda>k. length (walk k)) ` set ks))"
    and n: "\<forall>i<length items'.
        (\<forall>k \<in> set ks. i < length (walk k) \<longrightarrow>
           (items' ! i) (attr_name typ k) = Some (decode (walk k ! i))) \<and>
        (\<forall>n. (\<forall>k \<in> set ks. i < length (walk k) \<longrightarrow> attr_name typ k \<noteq> n) \<longrightarrow>
           (items' ! i) n = (if i < length items1 then items1 ! i else new_part typ) n)"
    by blast
  have res: "parse_keys typ walk items (k # ks) = Inr items'" using r1 r by simp
  have len: "length items' = Max (insert (length items) ((\<lambda>k. length (walk k)) ` set (k # ks)))"
  proof (cases "set ks = {}")
    case True
    with l l1 show ?thesis by simp
  next
    case False
    with l l1 show ?thesis by (simp add: max.assoc max.left_commute)
  qed
  have base1: "\<And>i n. i < length items' \<Longrightarrow> (i < length (walk k) \<longrightarrow> attr_name typ k \<noteq> n) \<Longrightarrow>
      (if i < length items1 then items1 ! i else new_part typ) n
        = (if i < length items then items ! i else new_part typ) n"
    using n1 l1 by auto
  have own: "\<And>i. i < length (walk k) \<Longrightarrow>
      (if i < length items1 then items1 ! i else new_part typ) (attr_name typ k) = Some (decode (walk k ! i))"
    using n1 l1 by auto
  have elems: "\<forall>i<length items'.
        (\<forall>k' \<in> set (k # ks). i < length (walk k') \<longrightarrow>
           (items' ! i) (attr_name typ k') = Some (decode (walk k' ! i))) \<and>
        (\<forall>n. (\<forall>k' \<in> set (k # ks). i < length (walk k') \<longrightarrow> attr_name typ k' \<noteq> n) \<longrightarrow>
           (items' ! i) n = (if i < length items then items ! i else new_part typ) n)"
  proof (intro allI impI conjI ballI)
    fix i k'
    assume i: "i < length items'" and k': "k' \<in> set (k # ks)" and w: "i < length (walk k')"
    show "(items' ! i) (attr_name typ k') = Some (decode (walk k' ! i))"
    proof (cases "k' \<in> set ks")
      case True
      with n i w show ?thesis by blast
    next
      case False
      with k' have eq: "k' = k" by simp
      have "\<forall>k'' \<in> set ks. i < length (walk k'') \<longrightarrow> attr_name typ k'' \<noteq> attr_name typ k"
        using Cons.prems(2) False eq by (auto simp: inj_on_def)
      with n i have "(items' ! i) (attr_name typ k)
          = (if i < length items1 then items1 ! i else new_part typ) (attr_name typ k)"
        by blast
      with own w eq show ?thesis by simp
    qed
  next
    fix i n'
    assume i: "i < length items'"
      and free: "\<forall>k' \<in> set (k # ks). i < length (walk k') \<longrightarrow> attr_name typ k' \<noteq> n'"
    then have "(items' ! i) n' = (if i < length items1 then items1 ! i else new_part typ) n'"
      using n by simp
    also have "\<dots> = (if i < length items then items ! i else new_part typ) n'"
      using base1 [OF i] free by simp
    finally show "(items' ! i) n' = (if i < length items then items ! i else new_part typ) n'" .
  qed
  show ?case using res len elems by blast
qed

lemma structure_keys: "k \<in> fst ` set (STRUCTURE typ) \<Longrightarrow> map_of (STRUCTURE typ) k \<noteq> None"
  by (simp add: map_of_eq_None_iff)

lemma structure_lookup: "(k, attr) \<in> set (STRUCTURE typ) \<Longrightarrow> map_of (STRUCTURE typ) k = Some attr"
  by (cases "typ") auto

lemma structure_inj: "inj_on (attr_name typ) (fst ` set (STRUCTURE typ))"
  by (cases "typ") (simp_all add: attr_name_def)

lemma new_part_unset: "(k, attr) \<in> set (STRUCTURE typ) \<Longrightarrow> new_part typ (''_'' @ attr) = Some PNone"
  by (cases "typ") (auto simp: walkable_init_def)

text \<open>
  C10. \<open>_parse_data\<close> never raises, whatever the lengths of the walks of the keys: the
  number of parts is the greatest length of a walk over the keys of the table; the i-th
  value of the walk of every key is the value of its attribute in the i-th part; and the
  attribute of a part whose index is not below the length of the walk of its key is still
  \<open>None\<close>, as the constructor left it.
\<close>

theorem parse_data_total:
  "\<exists>items. parse_data typ walk = Inr items \<and>
     length items = Max ((\<lambda>k. length (walk k)) ` fst ` set (STRUCTURE typ)) \<and>
     (\<forall>(k, attr) \<in> set (STRUCTURE typ). \<forall>i<length items.
        (items ! i) (''_'' @ attr) = Some (if i < length (walk k) then decode (walk k ! i) else PNone))"
proof -
  let ?keys = "map fst (STRUCTURE typ)"
  have k1: "\<forall>k \<in> set ?keys. map_of (STRUCTURE typ) k \<noteq> None"
    using structure_keys [of _ "typ"] by simp
  have k2: "inj_on (attr_name typ) (set ?keys)" using structure_inj [of "typ"] by simp
  from parse_keys_fill [OF k1 k2, of walk "[]"] obtain items where
    r: "parse_keys typ walk [] ?keys = Inr items"
    and l: "length items = Max (insert 0 ((\<lambda>k. length (walk k)) ` set ?keys))"
    and n: "\<forall>i<length items.
        (\<forall>k \<in> set ?keys. i < length (walk k) \<longrightarrow>
           (items ! i) (attr_name typ k) = Some (decode (walk k ! i))) \<and>
        (\<forall>n. (\<forall>k \<in> set ?keys. i < length (walk k) \<longrightarrow> attr_name typ k \<noteq> n) \<longrightarrow>
           (items ! i) n = new_part typ n)"
    by auto
  have ne: "set ?keys \<noteq> {}" by (cases "typ") simp_all
  have len: "length items = Max ((\<lambda>k. length (walk k)) ` fst ` set (STRUCTURE typ))"
    using l ne by simp
  have attrs: "\<forall>(k, attr) \<in> set (STRUCTURE typ). \<forall>i<length items.
        (items ! i) (''_'' @ attr) = Some (if i < length (walk k) then decode (walk k ! i) else PNone)"
  proof (intro ballI allI impI, clarify)
    fix k attr i
    assume ka: "(k, attr) \<in> set (STRUCTURE typ)" and i: "i < length items"
    have an: "attr_name typ k = ''_'' @ attr"
      using structure_lookup [OF ka] by (simp add: attr_name_def)
    have kin: "k \<in> set ?keys" using ka by force
    show "(items ! i) (''_'' @ attr) = Some (if i < length (walk k) then decode (walk k ! i) else PNone)"
    proof (cases "i < length (walk k)")
      case True
      with n i kin an show ?thesis by fastforce
    next
      case False
      have "\<forall>k' \<in> set ?keys. i < length (walk k') \<longrightarrow> attr_name typ k' \<noteq> attr_name typ k"
        using k2 kin False by (auto simp: inj_on_def)
      with n i have "(items ! i) (attr_name typ k) = new_part typ (attr_name typ k)" by blast
      with False an new_part_unset [OF ka] show ?thesis by simp
    qed
  qed
  show ?thesis unfolding parse_data_def using r len attrs by blast
qed

theorem parse_data_total_witness:
  "\<exists>items. parse_data TrayClass short_walk = Inr items \<and> length items = 2 \<and>
     (items ! 0) ''_level'' = Some (PInt 250) \<and> (items ! 1) ''_level'' = Some (PInt 30) \<and>
     (items ! 0) ''_name'' = Some (PStr ''Tray 1'') \<and> (items ! 1) ''_name'' = Some PNone \<and>
     (items ! 0) ''_status'' = Some PNone \<and> (items ! 1) ''_paper'' = Some PNone"
  using parse_data_total [of TrayClass short_walk]
  by (auto simp: short_walk_def decode_def strip_def py_isspace_def)

end
